theory Spec2Isabelle
  imports Main
begin

section \<open>The DFU ownership lock of nRF Desktop\<close>

text \<open>
  The lock of \<^verbatim>\<open>dfu_lock.c\<close> serialises firmware-update transports. Its state
  is three file-scope variables: two pointers to constant owner descriptors and one
  atomic flag. Execution is sequential. The four
  operations are embedded below as functions from the state before the call to the
  state after it, together with the return value and the list of externally visible
  events (log lines and callback invocations) the call produced, in program order.
\<close>

subsection \<open>Owner descriptors and pointers\<close>

text \<open>
  \<^verbatim>\<open>struct dfu_lock_owner { const char *name; void (*owner_changed)(...); }\<close>.
  The callback is a function pointer: \<open>None\<close> is the null function pointer,
  \<open>Some f\<close> points to the external function numbered \<open>f\<close>.
\<close>

type_synonym fn_id = nat

record dfu_lock_owner =
  name :: string
  owner_changed :: "fn_id option"

text \<open>
  A \<^verbatim>\<open>const struct dfu_lock_owner *\<close> is either the null pointer or the address
  of a descriptor. Two pointers are equal iff they are the same address: descriptors
  with equal contents at different addresses are different owners.
\<close>

type_synonym addr = nat

datatype owner_ptr = NULL | Ptr addr

text \<open>
  The descriptors are constant objects that live outside the lock; the memory holding
  them is a parameter of every operation. Every non-null pointer refers to a
  descriptor; reading a field through the null pointer is the error \<open>Null_deref\<close>.
\<close>

type_synonym owner_mem = "addr \<Rightarrow> dfu_lock_owner"

datatype assertion =
    Try_new_owner_not_null
  | Try_current_owner_null
  | Release_ownership_released

datatype error = Assert_failed assertion | Null_deref

fun deref :: "owner_mem \<Rightarrow> owner_ptr \<Rightarrow> error + dfu_lock_owner" where
  "deref mem NULL = Inl Null_deref"
| "deref mem (Ptr a) = Inr (mem a)"

subsection \<open>Lock state\<close>

text \<open>
  \<^verbatim>\<open>static const struct dfu_lock_owner *previous_owner;\<close>
  \<^verbatim>\<open>static const struct dfu_lock_owner *current_owner;\<close>
  \<^verbatim>\<open>static atomic_t dfu_lock = ATOMIC_INIT(false);\<close>
  An \<^verbatim>\<open>atomic_t\<close> is an integer; C's \<^verbatim>\<open>false\<close> and \<^verbatim>\<open>true\<close> are 0 and 1.
  Static pointers start out null.
\<close>

record lock_state =
  previous_owner :: owner_ptr
  current_owner :: owner_ptr
  dfu_lock :: int

definition init :: lock_state where
  "init = \<lparr>previous_owner = NULL, current_owner = NULL, dfu_lock = 0\<rparr>"

definition held :: "lock_state \<Rightarrow> bool" where
  "held s = (dfu_lock s \<noteq> 0)"

subsection \<open>Events\<close>

text \<open>
  A call of an \<^verbatim>\<open>owner_changed\<close> callback is recorded with the address of the
  descriptor it was read from, the function called, the argument passed, and the lock
  variables as they stand at the moment of the call (what the callee would see through
  \<^verbatim>\<open>dfu_lock_owner_check\<close>). The lock variables are \<^verbatim>\<open>static\<close>, and a callback
  must not call back into the lock, so the callee leaves them as they are.
\<close>

datatype event =
    Log_dbg string
  | Log_wrn string
  | Owner_changed_call addr fn_id owner_ptr lock_state

fun is_call :: "event \<Rightarrow> bool" where
  "is_call (Owner_changed_call p f x v) = True"
| "is_call _ = False"

definition calls :: "event list \<Rightarrow> event list" where
  "calls evs = filter is_call evs"

subsection \<open>Primitives of the runtime\<close>

text \<open>
  Modelled from the spec: \<^verbatim>\<open>atomic_cas\<close> is the kernel's compare-and-swap, which
  is not part of this repository. If the target holds \<open>old_value\<close> it is set to
  \<open>new_value\<close> and the call returns true; otherwise the target is left alone and the
  call returns false. Execution is sequential, so the operation is one step.
\<close>

definition atomic_cas :: "int \<Rightarrow> int \<Rightarrow> int \<Rightarrow> bool \<times> int" where
  "atomic_cas target old_value new_value =
     (if target = old_value then (True, new_value) else (False, target))"

text \<open>
  Modelled from the spec: \<^verbatim>\<open>__ASSERT_NO_MSG\<close> is the kernel's assertion macro, which
  is not part of this repository. The spec calls a failed assertion fatal in debug
  builds; this is the build modelled here. \<open>None\<close> means the condition held and
  execution goes on; \<open>Some e\<close> is the fatal error that stops the operation.
\<close>

definition assert_no_msg :: "assertion \<Rightarrow> bool \<Rightarrow> error option" where
  "assert_no_msg a cond = (if cond then None else Some (Assert_failed a))"

text \<open>
  The logging macros \<^verbatim>\<open>LOG_DBG\<close> and \<^verbatim>\<open>LOG_WRN\<close> evaluate their arguments, so
  \<^verbatim>\<open>p->name\<close> in a log call reads through \<open>p\<close>, and the formatted line is an
  event.
\<close>

type_synonym 'r outcome = "error + ('r \<times> lock_state \<times> event list)"

subsection \<open>The four operations\<close>

definition dfu_lock_try :: "owner_mem \<Rightarrow> owner_ptr \<Rightarrow> lock_state \<Rightarrow> bool outcome" where
  "dfu_lock_try mem new_owner s =
     (case assert_no_msg Try_new_owner_not_null (new_owner \<noteq> NULL) of
        Some e \<Rightarrow> Inl e
      | None \<Rightarrow>
          (case atomic_cas (dfu_lock s) 0 1 of
             (is_ownership_changed, v) \<Rightarrow>
               let s1 = s\<lparr>dfu_lock := v\<rparr> in
               if \<not> is_ownership_changed then Inr (False, s1, [])
               else
                 (case assert_no_msg Try_current_owner_null (current_owner s1 = NULL) of
                    Some e \<Rightarrow> Inl e
                  | None \<Rightarrow>
                      let s2 = s1\<lparr>current_owner := new_owner\<rparr> in
                      (case deref mem new_owner of
                         Inl e \<Rightarrow> Inl e
                       | Inr d \<Rightarrow>
                           let log = [Log_dbg (''New DFU owner locked: '' @ name d)] in
                           (case previous_owner s2 of
                              NULL \<Rightarrow> Inr (True, s2, log)
                            | Ptr p \<Rightarrow>
                                (case owner_changed (mem p) of
                                   None \<Rightarrow> Inr (True, s2, log)
                                 | Some f \<Rightarrow>
                                     if previous_owner s2 \<noteq> current_owner s2
                                     then Inr (True, s2,
                                       log @ [Owner_changed_call p f new_owner s2])
                                     else Inr (True, s2, log)))))))"

definition dfu_lock_release :: "owner_mem \<Rightarrow> owner_ptr \<Rightarrow> lock_state \<Rightarrow> unit outcome" where
  "dfu_lock_release mem owner s =
     (if current_owner s \<noteq> owner then Inr ((), s, [])
      else
        let s1 = s\<lparr>previous_owner := current_owner s\<rparr>;
            s2 = s1\<lparr>current_owner := NULL\<rparr>
        in
          (case atomic_cas (dfu_lock s2) 1 0 of
             (is_ownership_released, v) \<Rightarrow>
               let s3 = s2\<lparr>dfu_lock := v\<rparr> in
               (case assert_no_msg Release_ownership_released is_ownership_released of
                  Some e \<Rightarrow> Inl e
                | None \<Rightarrow>
                    (case deref mem owner of
                       Inl e \<Rightarrow> Inl e
                     | Inr d \<Rightarrow>
                         Inr ((), s3, [Log_dbg (''DFU lock released by '' @ name d)])))))"

definition dfu_lock_owner_check :: "owner_ptr \<Rightarrow> lock_state \<Rightarrow> bool outcome" where
  "dfu_lock_owner_check owner s = Inr (owner = current_owner s, s, [])"

definition dfu_lock_owner_check_and_try ::
  "owner_mem \<Rightarrow> owner_ptr \<Rightarrow> lock_state \<Rightarrow> bool outcome" where
  "dfu_lock_owner_check_and_try mem owner s =
     (case dfu_lock_owner_check owner s of
        Inl e \<Rightarrow> Inl e
      | Inr (is_owner, s1, evs1) \<Rightarrow>
          if is_owner then Inr (True, s1, evs1)
          else
            (case dfu_lock_try mem owner s1 of
               Inl e \<Rightarrow> Inl e
             | Inr (is_ownership_changed, s2, evs2) \<Rightarrow>
                 if is_ownership_changed then Inr (True, s2, evs1 @ evs2)
                 else
                   (case deref mem owner of
                      Inl e \<Rightarrow> Inl e
                    | Inr d \<Rightarrow>
                        (case deref mem (current_owner s2) of
                           Inl e \<Rightarrow> Inl e
                         | Inr c \<Rightarrow>
                             Inr (False, s2, evs1 @ evs2 @
                               [Log_wrn (''DFU lock failed by '' @ name d @
                                  '' because of '' @ name c @ '' ownership'')])))))"

subsection \<open>The owner of the MCUmgr module and an example memory\<close>

text \<open>
  \<^verbatim>\<open>mcumgr_owner\<close> of the MCUmgr module: its callback is \<^verbatim>\<open>dfu_lock_owner_changed\<close>,
  here function number 1. The example memory places it at address 1 and puts a
  second owner, the Bluetooth SMP transport, with a callback of its own everywhere
  else.
\<close>

definition mcumgr_owner :: dfu_lock_owner where
  "mcumgr_owner = \<lparr>name = ''MCUmgr'', owner_changed = Some 1\<rparr>"

definition smp_owner :: dfu_lock_owner where
  "smp_owner = \<lparr>name = ''ble-smp'', owner_changed = Some 2\<rparr>"

definition example_mem :: owner_mem where
  "example_mem a = (if a = 1 then mcumgr_owner else smp_owner)"

subsection \<open>Sequences of calls\<close>

text \<open>
  A caller's request, and the execution of a finite sequence of requests one after
  the other. A void function returns \<open>None\<close>, a boolean one \<open>Some b\<close>. A fatal
  error ends the run: \<open>run\<close> gives the outcomes of the calls that returned, in order,
  and the error that stopped the run, if any.
\<close>

datatype request =
    Try owner_ptr
  | Release owner_ptr
  | Check owner_ptr
  | Check_and_try owner_ptr

fun identity :: "request \<Rightarrow> owner_ptr" where
  "identity (Try x) = x"
| "identity (Release x) = x"
| "identity (Check x) = x"
| "identity (Check_and_try x) = x"

fun with_ret :: "('a \<Rightarrow> 'b) \<Rightarrow> 'a outcome \<Rightarrow> 'b outcome" where
  "with_ret g (Inl e) = Inl e"
| "with_ret g (Inr (r, s, evs)) = Inr (g r, s, evs)"

fun step :: "owner_mem \<Rightarrow> request \<Rightarrow> lock_state \<Rightarrow> bool option outcome" where
  "step mem (Try x) s = with_ret Some (dfu_lock_try mem x s)"
| "step mem (Release x) s = with_ret (\<lambda>u. None) (dfu_lock_release mem x s)"
| "step mem (Check x) s = with_ret Some (dfu_lock_owner_check x s)"
| "step mem (Check_and_try x) s = with_ret Some (dfu_lock_owner_check_and_try mem x s)"

type_synonym returned = "bool option \<times> lock_state \<times> event list"

fun run :: "owner_mem \<Rightarrow> request list \<Rightarrow> lock_state \<Rightarrow> returned list \<times> error option" where
  "run mem [] s = ([], None)"
| "run mem (c # cs) s =
     (case step mem c s of
        Inl e \<Rightarrow> ([], Some e)
      | Inr (r, s', evs) \<Rightarrow>
          (case run mem cs s' of (outs, err) \<Rightarrow> ((r, s', evs) # outs, err)))"

fun state_after :: "returned \<Rightarrow> lock_state" where
  "state_after (r, s, evs) = s"

text \<open>The states between the calls of a run that starts in the initial state.\<close>

definition states_between :: "owner_mem \<Rightarrow> request list \<Rightarrow> lock_state list" where
  "states_between mem cs = init # map state_after (fst (run mem cs init))"

text \<open>
  The flag agrees with the owner pointer: it is 1 when an owner is recorded and 0
  when none is.
\<close>

definition lock_inv :: "lock_state \<Rightarrow> bool" where
  "lock_inv s = (dfu_lock s = (if current_owner s = NULL then 0 else 1))"

subsection \<open>Example states and an example run\<close>

text \<open>
  The states of the run in which MCUmgr takes the lock, the SMP transport is turned
  away, MCUmgr releases, and the SMP transport takes the lock, asks again and
  releases.
\<close>

definition held_by_mcumgr :: lock_state where
  "held_by_mcumgr = \<lparr>previous_owner = NULL, current_owner = Ptr 1, dfu_lock = 1\<rparr>"

definition released_by_mcumgr :: lock_state where
  "released_by_mcumgr = \<lparr>previous_owner = Ptr 1, current_owner = NULL, dfu_lock = 0\<rparr>"

definition held_by_smp :: lock_state where
  "held_by_smp = \<lparr>previous_owner = Ptr 1, current_owner = Ptr 2, dfu_lock = 1\<rparr>"

definition scenario :: "request list" where
  "scenario =
     [Check_and_try (Ptr 1), Check_and_try (Ptr 2), Check (Ptr 2), Release (Ptr 1),
      Check_and_try (Ptr 2), Check_and_try (Ptr 2), Release (Ptr 2)]"

section \<open>Properties\<close>

subsection \<open>Auxiliary facts\<close>

lemmas op_defs = dfu_lock_try_def dfu_lock_release_def dfu_lock_owner_check_def
  dfu_lock_owner_check_and_try_def atomic_cas_def assert_no_msg_def

lemmas example_defs = example_mem_def mcumgr_owner_def smp_owner_def init_def
  held_by_mcumgr_def released_by_mcumgr_def held_by_smp_def

lemma init_inv: "lock_inv init"
  by (simp add: lock_inv_def init_def)

text \<open>A call that returns leaves the flag and the owner pointer in agreement.\<close>

lemma step_inv:
  "lock_inv s \<Longrightarrow> step mem c s = Inr (r, s', evs) \<Longrightarrow> lock_inv s'"
  by (cases c)
    (auto simp: op_defs lock_inv_def Let_def
      split: owner_ptr.splits option.splits if_splits sum.splits prod.splits)

text \<open>With a non-null identity, a call made while they agree returns.\<close>

lemma step_ok:
  "lock_inv s \<Longrightarrow> identity c \<noteq> NULL \<Longrightarrow> \<exists>r s' evs. step mem c s = Inr (r, s', evs)"
  by (cases c; cases "identity c"; cases "current_owner s")
    (auto simp: op_defs lock_inv_def Let_def
      split: owner_ptr.splits option.splits if_splits sum.splits prod.splits)

lemma run_inv:
  "lock_inv s \<Longrightarrow> t \<in> set (map state_after (fst (run mem cs s))) \<Longrightarrow> lock_inv t"
proof (induction cs arbitrary: s)
  case Nil
  then show ?case by simp
next
  case (Cons c cs)
  show ?case
  proof (cases "step mem c s")
    case (Inl e)
    with Cons.prems show ?thesis by simp
  next
    case (Inr out)
    obtain r s' evs where out: "out = (r, s', evs)" by (cases out) auto
    have inv': "lock_inv s'" using step_inv [OF Cons.prems(1)] Inr out by blast
    from Cons.prems(2) Inr out
    have "t = s' \<or> t \<in> set (map state_after (fst (run mem cs s')))"
      by (auto split: prod.splits)
    then show ?thesis using inv' Cons.IH [OF inv'] by blast
  qed
qed

lemma run_ok:
  "lock_inv s \<Longrightarrow> \<forall>c\<in>set cs. identity c \<noteq> NULL \<Longrightarrow> snd (run mem cs s) = None"
proof (induction cs arbitrary: s)
  case Nil
  then show ?case by simp
next
  case (Cons c cs)
  from Cons.prems obtain r s' evs where st: "step mem c s = Inr (r, s', evs)"
    using step_ok [of s c mem] by auto
  have "lock_inv s'" using step_inv [OF Cons.prems(1) st] .
  then have "snd (run mem cs s') = None" using Cons.IH Cons.prems(2) by simp
  then show ?case using st by (auto split: prod.splits)
qed

lemma check_and_try_owner:
  "current_owner s = x \<Longrightarrow> dfu_lock_owner_check_and_try mem x s = Inr (True, s, [])"
  by (simp add: dfu_lock_owner_check_def dfu_lock_owner_check_and_try_def)

subsection \<open>The flag and the owner pointer\<close>

text \<open>
  C1. Take any memory of descriptors and any finite sequence of calls of the four
  operations, with any arguments, run from the initial state. In every state between
  two calls (the initial state and the state after each call that returned) the flag
  is set iff \<^verbatim>\<open>current_owner\<close> is non-null, and any two identities that
  \<^verbatim>\<open>dfu_lock_owner_check\<close> reports as the owner are the same.
\<close>

theorem lock_held_iff_owner_set:
  "s \<in> set (states_between mem cs) \<Longrightarrow>
     held s = (current_owner s \<noteq> NULL) \<and>
     (\<forall>x y. dfu_lock_owner_check x s = Inr (True, s, []) \<and>
            dfu_lock_owner_check y s = Inr (True, s, []) \<longrightarrow> x = y)"
proof -
  assume "s \<in> set (states_between mem cs)"
  then have "lock_inv s"
    using run_inv [OF init_inv] init_inv by (auto simp: states_between_def)
  then show ?thesis
    by (auto simp: lock_inv_def held_def dfu_lock_owner_check_def split: if_splits)
qed

theorem lock_held_iff_owner_set_witness:
  "held_by_smp \<in> set (states_between example_mem scenario) \<and>
   held held_by_smp \<and> current_owner held_by_smp = Ptr 2"
proof -
  have h: "held_by_smp \<in> set (states_between example_mem scenario)"
    by (simp add: states_between_def scenario_def op_defs example_defs Let_def)
  from lock_held_iff_owner_set [OF h] h show ?thesis
    by (simp add: held_by_smp_def)
qed

subsection \<open>Acquiring\<close>

text \<open>
  C2. Let the flag agree with the owner pointer, as it does in every state reached
  from the initial one, and let \<open>x\<close> be a non-null identity. If the lock is free,
  \<^verbatim>\<open>dfu_lock_try\<close> returns true, and the state after it differs from the state
  before only in that \<open>x\<close> is the current owner and the flag is set. If the lock is
  held, it returns false, the state is the one before, and there is no event at all,
  so no callback is called.
\<close>

theorem dfu_lock_try_free_or_held:
  "lock_inv s \<Longrightarrow> x \<noteq> NULL \<Longrightarrow>
     (\<not> held s \<longrightarrow>
        (\<exists>evs. dfu_lock_try mem x s =
           Inr (True, s\<lparr>current_owner := x, dfu_lock := 1\<rparr>, evs))) \<and>
     (held s \<longrightarrow> dfu_lock_try mem x s = Inr (False, s, []))"
  by (cases x)
    (auto simp: op_defs lock_inv_def held_def Let_def
      split: owner_ptr.splits option.splits if_splits)

theorem dfu_lock_try_free_or_held_witness:
  "lock_inv init \<and> \<not> held init \<and>
   dfu_lock_try example_mem (Ptr 1) init =
     Inr (True, held_by_mcumgr, [Log_dbg ''New DFU owner locked: MCUmgr'']) \<and>
   lock_inv held_by_mcumgr \<and> held held_by_mcumgr \<and>
   dfu_lock_try example_mem (Ptr 2) held_by_mcumgr = Inr (False, held_by_mcumgr, [])"
proof -
  have free: "lock_inv init" "\<not> held init"
    by (simp_all add: lock_inv_def held_def init_def)
  have taken: "lock_inv held_by_mcumgr" "held held_by_mcumgr"
    by (simp_all add: lock_inv_def held_def held_by_mcumgr_def)
  have "\<exists>evs. dfu_lock_try example_mem (Ptr 1) init =
      Inr (True, init\<lparr>current_owner := Ptr 1, dfu_lock := 1\<rparr>, evs)"
    using dfu_lock_try_free_or_held [OF free(1), of "Ptr 1" example_mem] free(2) by simp
  then have a: "dfu_lock_try example_mem (Ptr 1) init =
      Inr (True, held_by_mcumgr, [Log_dbg ''New DFU owner locked: MCUmgr''])"
    by (auto simp: op_defs example_defs Let_def)
  have b: "dfu_lock_try example_mem (Ptr 2) held_by_mcumgr = Inr (False, held_by_mcumgr, [])"
    using dfu_lock_try_free_or_held [OF taken(1), of "Ptr 2" example_mem] taken(2) by simp
  show ?thesis using free taken a b by simp
qed

subsection \<open>Releasing\<close>

text \<open>
  C3. Let the flag agree with the owner pointer and let the non-null identity \<open>x\<close>
  be the current owner. Then the flag is set, and \<^verbatim>\<open>dfu_lock_release\<close> returns
  with \<open>x\<close> as the previous owner, no current owner and the flag cleared; it calls
  no callback.
\<close>

theorem dfu_lock_release_by_owner:
  "lock_inv s \<Longrightarrow> x \<noteq> NULL \<Longrightarrow> current_owner s = x \<Longrightarrow>
     held s \<and>
     (\<exists>evs. dfu_lock_release mem x s =
        Inr ((), s\<lparr>previous_owner := x, current_owner := NULL, dfu_lock := 0\<rparr>, evs) \<and>
        calls evs = [])"
  by (cases x) (auto simp: op_defs lock_inv_def held_def calls_def Let_def)

theorem dfu_lock_release_by_owner_witness:
  "lock_inv held_by_mcumgr \<and> current_owner held_by_mcumgr = Ptr 1 \<and>
   held held_by_mcumgr \<and>
   dfu_lock_release example_mem (Ptr 1) held_by_mcumgr =
     Inr ((), released_by_mcumgr, [Log_dbg ''DFU lock released by MCUmgr''])"
proof -
  have h: "lock_inv held_by_mcumgr" "Ptr 1 \<noteq> NULL" "current_owner held_by_mcumgr = Ptr 1"
    by (simp_all add: lock_inv_def held_by_mcumgr_def)
  from dfu_lock_release_by_owner [OF h, of example_mem] h show ?thesis
    by (auto simp: op_defs example_defs Let_def)
qed

text \<open>
  C6. For an identity \<open>y\<close> that is not the value of \<^verbatim>\<open>current_owner\<close>, whether the
  lock is held by someone else or free, \<^verbatim>\<open>dfu_lock_release\<close> returns normally,
  the state is the one before, and there is no event: no assertion fails, nothing is
  logged, no callback is called.
\<close>

theorem dfu_lock_release_non_owner_noop:
  "current_owner s \<noteq> y \<Longrightarrow> dfu_lock_release mem y s = Inr ((), s, [])"
  by (simp add: dfu_lock_release_def)

theorem dfu_lock_release_non_owner_noop_witness:
  "current_owner held_by_mcumgr = Ptr 1 \<and>
   dfu_lock_release example_mem (Ptr 2) held_by_mcumgr = Inr ((), held_by_mcumgr, []) \<and>
   current_owner init = NULL \<and>
   dfu_lock_release example_mem (Ptr 2) init = Inr ((), init, [])"
proof -
  have h: "current_owner held_by_mcumgr \<noteq> Ptr 2" "current_owner init \<noteq> Ptr 2"
    by (simp_all add: held_by_mcumgr_def init_def)
  from dfu_lock_release_non_owner_noop [OF h(1), of example_mem]
    dfu_lock_release_non_owner_noop [OF h(2), of example_mem]
  show ?thesis by (simp add: held_by_mcumgr_def init_def)
qed

subsection \<open>Notification of the previous owner\<close>

text \<open>
  C4. Whenever \<^verbatim>\<open>dfu_lock_try\<close> returns true for \<open>x\<close>, or
  \<^verbatim>\<open>dfu_lock_owner_check_and_try\<close> does for an \<open>x\<close> that was not the owner (so
  that it delegated), the callback calls among its events are: exactly one call, of the
  previous owner's callback with argument \<open>x\<close>, if the previous owner is non-null, has
  a callback and is not \<open>x\<close>; none otherwise. Such acquisitions happen: on a free
  lock, with a non-null \<open>x\<close>, both \<^verbatim>\<open>dfu_lock_try\<close> and
  \<^verbatim>\<open>dfu_lock_owner_check_and_try\<close> return true, install \<open>x\<close>, and produce the
  same events, with exactly those callback calls. In particular, from a free lock,
  after \<open>a\<close> acquires and releases, the acquisition by a different \<open>b\<close> succeeds and
  calls the callback of \<open>a\<close>, if it has one, once with argument \<open>b\<close>, whether the two
  acquire through \<^verbatim>\<open>dfu_lock_try\<close> or through \<^verbatim>\<open>dfu_lock_owner_check_and_try\<close>.
\<close>

theorem owner_changed_notification:
  "(dfu_lock_try mem x s = Inr (True, s', evs) \<or>
    current_owner s \<noteq> x \<and> dfu_lock_owner_check_and_try mem x s = Inr (True, s', evs) \<longrightarrow>
      calls evs =
        (case previous_owner s of
           NULL \<Rightarrow> []
         | Ptr p \<Rightarrow>
             (case owner_changed (mem p) of
                None \<Rightarrow> []
              | Some f \<Rightarrow> if Ptr p \<noteq> x then [Owner_changed_call p f x s'] else []))) \<and>
   (lock_inv s \<and> \<not> held s \<and> x \<noteq> NULL \<longrightarrow>
      (\<exists>es.
         dfu_lock_try mem x s = Inr (True, s\<lparr>current_owner := x, dfu_lock := 1\<rparr>, es) \<and>
         dfu_lock_owner_check_and_try mem x s =
           Inr (True, s\<lparr>current_owner := x, dfu_lock := 1\<rparr>, es) \<and>
         calls es =
           (case previous_owner s of
              NULL \<Rightarrow> []
            | Ptr p \<Rightarrow>
                (case owner_changed (mem p) of
                   None \<Rightarrow> []
                 | Some f \<Rightarrow>
                     if Ptr p \<noteq> x
                     then [Owner_changed_call p f x (s\<lparr>current_owner := x, dfu_lock := 1\<rparr>)]
                     else [])))) \<and>
   (lock_inv t \<and> \<not> held t \<and> a \<noteq> b \<longrightarrow>
      (\<exists>s1 e1 s2 e2 s3 e3.
         run mem [Try (Ptr a), Release (Ptr a), Try (Ptr b)] t =
           ([(Some True, s1, e1), (None, s2, e2), (Some True, s3, e3)], None) \<and>
         run mem [Check_and_try (Ptr a), Release (Ptr a), Check_and_try (Ptr b)] t =
           ([(Some True, s1, e1), (None, s2, e2), (Some True, s3, e3)], None) \<and>
         current_owner s3 = Ptr b \<and>
         calls e3 =
           (case owner_changed (mem a) of
              None \<Rightarrow> []
            | Some f \<Rightarrow> [Owner_changed_call a f (Ptr b) s3])))"
proof -
  have direct: "calls evs =
        (case previous_owner s of
           NULL \<Rightarrow> []
         | Ptr p \<Rightarrow>
             (case owner_changed (mem p) of
                None \<Rightarrow> []
              | Some f \<Rightarrow> if Ptr p \<noteq> x then [Owner_changed_call p f x s'] else []))"
    if "dfu_lock_try mem x s = Inr (True, s', evs)"
    using that
    by (auto simp: op_defs calls_def Let_def
        split: owner_ptr.splits option.splits if_splits sum.splits)
  have delegated: "dfu_lock_try mem x s = Inr (True, s', evs)"
    if "current_owner s \<noteq> x" "dfu_lock_owner_check_and_try mem x s = Inr (True, s', evs)"
    using that
    by (auto simp: dfu_lock_owner_check_and_try_def dfu_lock_owner_check_def
        split: sum.splits if_splits)
  have acquires: "\<exists>es.
         dfu_lock_try mem x s = Inr (True, s\<lparr>current_owner := x, dfu_lock := 1\<rparr>, es) \<and>
         dfu_lock_owner_check_and_try mem x s =
           Inr (True, s\<lparr>current_owner := x, dfu_lock := 1\<rparr>, es) \<and>
         calls es =
           (case previous_owner s of
              NULL \<Rightarrow> []
            | Ptr p \<Rightarrow>
                (case owner_changed (mem p) of
                   None \<Rightarrow> []
                 | Some f \<Rightarrow>
                     if Ptr p \<noteq> x
                     then [Owner_changed_call p f x (s\<lparr>current_owner := x, dfu_lock := 1\<rparr>)]
                     else []))"
    if "lock_inv s" "\<not> held s" "x \<noteq> NULL"
    using that
    by (cases x)
      (auto simp: op_defs calls_def Let_def lock_inv_def held_def
        split: owner_ptr.splits option.splits if_splits)
  have handover: "\<exists>s1 e1 s2 e2 s3 e3.
         run mem [Try (Ptr a), Release (Ptr a), Try (Ptr b)] t =
           ([(Some True, s1, e1), (None, s2, e2), (Some True, s3, e3)], None) \<and>
         run mem [Check_and_try (Ptr a), Release (Ptr a), Check_and_try (Ptr b)] t =
           ([(Some True, s1, e1), (None, s2, e2), (Some True, s3, e3)], None) \<and>
         current_owner s3 = Ptr b \<and>
         calls e3 =
           (case owner_changed (mem a) of
              None \<Rightarrow> []
            | Some f \<Rightarrow> [Owner_changed_call a f (Ptr b) s3])"
    if "lock_inv t" "\<not> held t" "a \<noteq> b"
    using that
    by (auto simp: op_defs calls_def Let_def lock_inv_def held_def
        split: owner_ptr.splits option.splits if_splits)
  show ?thesis using direct delegated acquires handover by blast
qed

theorem owner_changed_notification_witness:
  "lock_inv released_by_mcumgr \<and> \<not> held released_by_mcumgr \<and>
   dfu_lock_try example_mem (Ptr 2) released_by_mcumgr =
     Inr (True, held_by_smp,
       [Log_dbg ''New DFU owner locked: ble-smp'', Owner_changed_call 1 1 (Ptr 2) held_by_smp]) \<and>
   dfu_lock_owner_check_and_try example_mem (Ptr 2) released_by_mcumgr =
     Inr (True, held_by_smp,
       [Log_dbg ''New DFU owner locked: ble-smp'', Owner_changed_call 1 1 (Ptr 2) held_by_smp]) \<and>
   calls [Log_dbg ''New DFU owner locked: ble-smp'', Owner_changed_call 1 1 (Ptr 2) held_by_smp] =
     [Owner_changed_call 1 1 (Ptr 2) held_by_smp] \<and>
   lock_inv init \<and> \<not> held init \<and>
   run example_mem [Try (Ptr 1), Release (Ptr 1), Try (Ptr 2)] init =
     ([(Some True, held_by_mcumgr, [Log_dbg ''New DFU owner locked: MCUmgr'']),
       (None, released_by_mcumgr, [Log_dbg ''DFU lock released by MCUmgr'']),
       (Some True, held_by_smp,
        [Log_dbg ''New DFU owner locked: ble-smp'',
         Owner_changed_call 1 1 (Ptr 2) held_by_smp])], None) \<and>
   run example_mem [Check_and_try (Ptr 1), Release (Ptr 1), Check_and_try (Ptr 2)] init =
     ([(Some True, held_by_mcumgr, [Log_dbg ''New DFU owner locked: MCUmgr'']),
       (None, released_by_mcumgr, [Log_dbg ''DFU lock released by MCUmgr'']),
       (Some True, held_by_smp,
        [Log_dbg ''New DFU owner locked: ble-smp'',
         Owner_changed_call 1 1 (Ptr 2) held_by_smp])], None)"
proof -
  have rel: "lock_inv released_by_mcumgr \<and> \<not> held released_by_mcumgr \<and> Ptr 2 \<noteq> NULL"
    by (simp add: lock_inv_def held_def released_by_mcumgr_def)
  have free: "lock_inv init \<and> \<not> held init \<and> (1::nat) \<noteq> 2"
    by (simp add: lock_inv_def held_def init_def)
  have upd: "released_by_mcumgr\<lparr>current_owner := Ptr 2, dfu_lock := 1\<rparr> = held_by_smp"
    by (simp add: released_by_mcumgr_def held_by_smp_def)
  have t: "dfu_lock_try example_mem (Ptr 2) released_by_mcumgr =
     Inr (True, held_by_smp,
       [Log_dbg ''New DFU owner locked: ble-smp'', Owner_changed_call 1 1 (Ptr 2) held_by_smp])"
    by (simp add: op_defs example_defs Let_def)
  have r: "run example_mem [Try (Ptr 1), Release (Ptr 1), Try (Ptr 2)] init =
     ([(Some True, held_by_mcumgr, [Log_dbg ''New DFU owner locked: MCUmgr'']),
       (None, released_by_mcumgr, [Log_dbg ''DFU lock released by MCUmgr'']),
       (Some True, held_by_smp,
        [Log_dbg ''New DFU owner locked: ble-smp'',
         Owner_changed_call 1 1 (Ptr 2) held_by_smp])], None)"
    by (simp add: op_defs example_defs Let_def)
  note inst = owner_changed_notification
    [of example_mem "Ptr 2" released_by_mcumgr held_by_smp
      "[Log_dbg ''New DFU owner locked: ble-smp'', Owner_changed_call 1 1 (Ptr 2) held_by_smp]"
      init 1 2]
  from inst rel upd t
  have c: "dfu_lock_owner_check_and_try example_mem (Ptr 2) released_by_mcumgr =
     Inr (True, held_by_smp,
       [Log_dbg ''New DFU owner locked: ble-smp'', Owner_changed_call 1 1 (Ptr 2) held_by_smp])"
    by auto
  from inst free r
  have rc: "run example_mem [Check_and_try (Ptr 1), Release (Ptr 1), Check_and_try (Ptr 2)] init =
     ([(Some True, held_by_mcumgr, [Log_dbg ''New DFU owner locked: MCUmgr'']),
       (None, released_by_mcumgr, [Log_dbg ''DFU lock released by MCUmgr'']),
       (Some True, held_by_smp,
        [Log_dbg ''New DFU owner locked: ble-smp'',
         Owner_changed_call 1 1 (Ptr 2) held_by_smp])], None)"
    by auto
  from inst t have k: "calls [Log_dbg ''New DFU owner locked: ble-smp'',
       Owner_changed_call 1 1 (Ptr 2) held_by_smp] = [Owner_changed_call 1 1 (Ptr 2) held_by_smp]"
    by (simp add: released_by_mcumgr_def example_defs)
  show ?thesis using rel free t c k r rc by simp
qed

text \<open>
  C9. Every callback call among the events of a \<^verbatim>\<open>dfu_lock_try\<close> for \<open>x\<close> was
  made with \<open>x\<close> already installed: the lock variables at the moment of the call have
  \<open>x\<close> as current owner and the flag set, and they are the very state the caller
  gets back. The call is the last event of an acquisition that returns true, and it
  belongs to the events the function has produced when it returns.
\<close>

theorem callback_sees_new_owner:
  "dfu_lock_try mem x s = Inr (r, s', evs) \<Longrightarrow> ev \<in> set evs \<Longrightarrow> is_call ev \<Longrightarrow>
     r \<and> current_owner s' = x \<and> held s' \<and>
     (\<exists>p f. ev = Owner_changed_call p f x s' \<and> previous_owner s = Ptr p) \<and>
     last evs = ev"
  by (auto simp: op_defs Let_def held_def
      split: owner_ptr.splits option.splits if_splits sum.splits)

theorem callback_sees_new_owner_witness:
  "dfu_lock_try example_mem (Ptr 2) released_by_mcumgr =
     Inr (True, held_by_smp,
       [Log_dbg ''New DFU owner locked: ble-smp'', Owner_changed_call 1 1 (Ptr 2) held_by_smp]) \<and>
   is_call (Owner_changed_call 1 1 (Ptr 2) held_by_smp) \<and>
   current_owner held_by_smp = Ptr 2 \<and> held held_by_smp"
proof -
  have t: "dfu_lock_try example_mem (Ptr 2) released_by_mcumgr =
     Inr (True, held_by_smp,
       [Log_dbg ''New DFU owner locked: ble-smp'', Owner_changed_call 1 1 (Ptr 2) held_by_smp])"
    by (simp add: op_defs example_defs Let_def)
  have m: "Owner_changed_call 1 1 (Ptr 2) held_by_smp \<in>
    set [Log_dbg ''New DFU owner locked: ble-smp'', Owner_changed_call 1 1 (Ptr 2) held_by_smp]"
    by simp
  have c: "is_call (Owner_changed_call 1 1 (Ptr 2) held_by_smp)"
    by simp
  from callback_sees_new_owner [OF t m c] t c show ?thesis by simp
qed

subsection \<open>Asking who owns the lock\<close>

text \<open>
  C8. \<^verbatim>\<open>dfu_lock_owner_check\<close> returns true iff its argument equals
  \<^verbatim>\<open>current_owner\<close>, leaves the state as it is and produces no event. After an
  acquisition by \<open>a\<close>, through \<^verbatim>\<open>dfu_lock_try\<close> or
  \<^verbatim>\<open>dfu_lock_owner_check_and_try\<close> returning true, the check is true for \<open>a\<close> and
  false for every other identity.
\<close>

theorem dfu_lock_owner_check_exact:
  "dfu_lock_owner_check x s = Inr (x = current_owner s, s, []) \<and>
   (dfu_lock_try mem a s = Inr (True, s', evs) \<or>
    dfu_lock_owner_check_and_try mem a s = Inr (True, s', evs) \<longrightarrow>
      dfu_lock_owner_check a s' = Inr (True, s', []) \<and>
      (\<forall>b. b \<noteq> a \<longrightarrow> dfu_lock_owner_check b s' = Inr (False, s', [])))"
  by (auto simp: op_defs Let_def
      split: owner_ptr.splits option.splits if_splits sum.splits)

theorem dfu_lock_owner_check_exact_witness:
  "dfu_lock_try example_mem (Ptr 1) init =
     Inr (True, held_by_mcumgr, [Log_dbg ''New DFU owner locked: MCUmgr'']) \<and>
   dfu_lock_owner_check (Ptr 1) held_by_mcumgr = Inr (True, held_by_mcumgr, []) \<and>
   dfu_lock_owner_check (Ptr 2) held_by_mcumgr = Inr (False, held_by_mcumgr, []) \<and>
   dfu_lock_owner_check NULL held_by_mcumgr = Inr (False, held_by_mcumgr, [])"
proof -
  have t: "dfu_lock_try example_mem (Ptr 1) init =
     Inr (True, held_by_mcumgr, [Log_dbg ''New DFU owner locked: MCUmgr''])"
    by (simp add: op_defs example_defs Let_def)
  from dfu_lock_owner_check_exact
    [of "Ptr 1" init example_mem "Ptr 1" held_by_mcumgr
      "[Log_dbg ''New DFU owner locked: MCUmgr'']"] t
  have "dfu_lock_owner_check (Ptr 1) held_by_mcumgr = Inr (True, held_by_mcumgr, []) \<and>
      (\<forall>b. b \<noteq> Ptr 1 \<longrightarrow> dfu_lock_owner_check b held_by_mcumgr = Inr (False, held_by_mcumgr, []))"
    by blast
  then show ?thesis using t by simp
qed

text \<open>
  C5. For an identity \<open>x\<close> that is the value of \<^verbatim>\<open>current_owner\<close>,
  \<^verbatim>\<open>dfu_lock_owner_check_and_try\<close> returns true, the state is the one before and
  there is no event, so no callback is called; and any number \<open>n\<close> of such calls in
  a row all return true, each leaving the state as it was, with no event.
\<close>

theorem check_and_try_reentry:
  "current_owner s = x \<Longrightarrow>
     dfu_lock_owner_check_and_try mem x s = Inr (True, s, []) \<and>
     run mem (replicate n (Check_and_try x)) s = (replicate n (Some True, s, []), None)"
proof -
  assume own: "current_owner s = x"
  have "run mem (replicate n (Check_and_try x)) s = (replicate n (Some True, s, []), None)"
    by (induction n) (simp_all add: check_and_try_owner [OF own])
  then show ?thesis using check_and_try_owner [OF own] by simp
qed

theorem check_and_try_reentry_witness:
  "current_owner held_by_smp = Ptr 2 \<and>
   dfu_lock_owner_check_and_try example_mem (Ptr 2) held_by_smp = Inr (True, held_by_smp, []) \<and>
   run example_mem [Check_and_try (Ptr 2), Check_and_try (Ptr 2), Check_and_try (Ptr 2)]
       held_by_smp =
     ([(Some True, held_by_smp, []), (Some True, held_by_smp, []),
       (Some True, held_by_smp, [])], None)"
proof -
  have h: "current_owner held_by_smp = Ptr 2"
    by (simp add: held_by_smp_def)
  from check_and_try_reentry [OF h, of example_mem 3] h show ?thesis
    by (simp add: numeral_3_eq_3)
qed

text \<open>
  C10. While \<^verbatim>\<open>current_owner\<close> is null, \<^verbatim>\<open>dfu_lock_owner_check\<close> with the null
  pointer returns true, and so does \<^verbatim>\<open>dfu_lock_owner_check_and_try\<close> with the null
  pointer, which leaves every lock variable as it was (the lock is not acquired) and
  produces no event.
\<close>

theorem null_identity_owns_free_lock:
  "current_owner s = NULL \<Longrightarrow>
     dfu_lock_owner_check NULL s = Inr (True, s, []) \<and>
     dfu_lock_owner_check_and_try mem NULL s = Inr (True, s, [])"
  by (simp add: dfu_lock_owner_check_def dfu_lock_owner_check_and_try_def)

theorem null_identity_owns_free_lock_witness:
  "current_owner init = NULL \<and> \<not> held init \<and>
   dfu_lock_owner_check NULL init = Inr (True, init, []) \<and>
   dfu_lock_owner_check_and_try example_mem NULL init = Inr (True, init, [])"
proof -
  have h: "current_owner init = NULL"
    by (simp add: init_def)
  from null_identity_owns_free_lock [OF h, of example_mem] h show ?thesis
    by (simp add: held_def init_def)
qed

subsection \<open>Assertions and null pointers\<close>

text \<open>
  C7, for callers that pass non-null identities. In a run from the initial state in
  which every call is given a non-null identity, every call returns: no assertion
  fails, neither the one on the compare-and-swap of \<^verbatim>\<open>dfu_lock_release\<close> nor the
  one on \<^verbatim>\<open>current_owner\<close> in \<^verbatim>\<open>dfu_lock_try\<close>, and no name is read through a
  null pointer, in particular not the name of the current owner in the failure path
  of \<^verbatim>\<open>dfu_lock_owner_check_and_try\<close>.
\<close>

theorem run_returns_with_non_null_identities:
  "\<forall>c\<in>set cs. identity c \<noteq> NULL \<Longrightarrow> snd (run mem cs init) = None"
  using run_ok [OF init_inv] by blast

theorem run_returns_with_non_null_identities_witness:
  "snd (run example_mem scenario init) = None \<and> length (fst (run example_mem scenario init)) = 7"
proof -
  have h: "\<forall>c\<in>set scenario. identity c \<noteq> NULL"
    by (simp add: scenario_def)
  have l: "length (fst (run example_mem scenario init)) = 7"
    by (simp add: scenario_def op_defs example_defs Let_def)
  from run_returns_with_non_null_identities [OF h, of example_mem] l show ?thesis
    by simp
qed

text \<open>
  The restriction to non-null identities is needed. Released with the null pointer
  while it is free, the lock passes the ownership test of \<^verbatim>\<open>dfu_lock_release\<close>
  (null equals null), the compare-and-swap from true to false fails, and the assertion
  on its result fails.
\<close>

theorem release_null_on_free_lock_asserts:
  "run example_mem [Release NULL] init =
     ([], Some (Assert_failed Release_ownership_released))"
  by (simp add: op_defs init_def)

end
